theory Spec2Isabelle
  imports Main "HOL-Library.Word"
begin

unbundle bit_operations_syntax

section \<open>Machine types and build-time constants\<close>

text \<open>
  \<^verbatim>\<open>uint8_t\<close> is an 8-bit word. \<^verbatim>\<open>unsigned long\<close> and \<^verbatim>\<open>uint32_t\<close> (the type of
  \<^verbatim>\<open>millis()\<close> and of both timestamps) are 32-bit words on the Arduino targets, so
  \<open>-\<close> and \<open>+\<close> on them wrap around modulo \<open>2 ^ 32\<close>.
\<close>

type_synonym u8 = "8 word"
type_synonym u32 = "32 word"

text \<open>The default periods of \<^verbatim>\<open>buttonsTemplate.h\<close>, in milliseconds.\<close>

definition BUTTON_DEBOUNCE_DELAY :: u32 where
  "BUTTON_DEBOUNCE_DELAY = 30"

definition DOUBLE_CLICK_DELAY :: u32 where
  "DOUBLE_CLICK_DELAY = 500"

definition LONG_RELEASE_DELAY :: u32 where
  "LONG_RELEASE_DELAY = 1000"

text \<open>The macro \<^verbatim>\<open>_BV(n)\<close> is \<^verbatim>\<open>(1 << (n))\<close>, stored into a \<^verbatim>\<open>uint8_t\<close>.\<close>

definition BV :: "nat \<Rightarrow> u8" where
  "BV n = push_bit n 1"

definition CLEAR_FLAGS :: u8 where
  "CLEAR_FLAGS = 0"

definition PRESSED_FLAG :: u8 where
  "PRESSED_FLAG = BV 0"

definition CLICKED_FLAG :: u8 where
  "CLICKED_FLAG = BV 1"

definition SHORT_RELEASED_FLAG :: u8 where
  "SHORT_RELEASED_FLAG = BV 2"

definition LONG_RELEASED_FLAG :: u8 where
  "LONG_RELEASED_FLAG = BV 3"

definition DOUBLE_CLICKED_FLAG :: u8 where
  "DOUBLE_CLICKED_FLAG = BV 4"

section \<open>The button record and the registry\<close>

record Button =
  pin :: u8
  state :: u8
  lastChangeTime :: u32
  lastClickTime :: u32

text \<open>The constructor \<^verbatim>\<open>Button()\<close> zeroes every field.\<close>

definition Button_ctor :: Button where
  "Button_ctor = \<lparr>pin = 0, state = 0, lastChangeTime = 0, lastClickTime = 0\<rparr>"

text \<open>
  The platform is reached through calls that return nothing to the library
  (\<^verbatim>\<open>pinMode\<close>, \<^verbatim>\<open>delay\<close>, \<^verbatim>\<open>attachInterrupt\<close>, \<^verbatim>\<open>detachInterrupt\<close>); the model
  records them, in order, in a log. The argument of the two interrupt calls is the pin
  handed to \<^verbatim>\<open>digitalPinToInterrupt\<close>.
\<close>

datatype platform_call =
  PinModePullup u8
  | Delay nat
  | AttachInterrupt u8
  | DetachInterrupt u8

text \<open>
  The static members of \<^verbatim>\<open>Buttons<NumberOfButtons>\<close>: the array \<^verbatim>\<open>_buttons\<close> (its
  length is the template parameter), the flag \<^verbatim>\<open>_begun\<close>, and the log of platform
  calls made so far.
\<close>

record Buttons =
  buttons :: "Button list"
  begun :: bool
  calls :: "platform_call list"

definition numberOfButtons :: "Buttons \<Rightarrow> nat" where
  "numberOfButtons s = length (buttons s)"

text \<open>The registry before any call: \<open>n\<close> default-constructed buttons, not begun.\<close>

definition Buttons_static_init :: "nat \<Rightarrow> Buttons" where
  "Buttons_static_init n = \<lparr>buttons = replicate n Button_ctor, begun = False, calls = []\<rparr>"

text \<open>
  \<^verbatim>\<open>for (uint8_t i = 0; i < NumberOfButtons; i++) body\<close>. The counter never wraps:
  it stops at \<^verbatim>\<open>NumberOfButtons\<close>, itself a \<^verbatim>\<open>uint8_t\<close>.
\<close>

definition for_each_button :: "(nat \<Rightarrow> Buttons \<Rightarrow> Buttons) \<Rightarrow> Buttons \<Rightarrow> Buttons" where
  "for_each_button body s = fold body [0..<length (buttons s)] s"

section \<open>The consumer's accessors\<close>

text \<open>
  \<^verbatim>\<open>clicked\<close>, \<^verbatim>\<open>shortReleased\<close>, \<^verbatim>\<open>longReleased\<close> and \<^verbatim>\<open>doubleClicked\<close> have the same
  three-line body up to the flag constant: read \<^verbatim>\<open>state & FLAG\<close>, store
  \<^verbatim>\<open>state &= ~FLAG\<close>, return whether the value read is nonzero. An index outside the
  array is undefined behaviour in the source; the model returns \<open>None\<close> there.
\<close>

definition read_and_clear :: "u8 \<Rightarrow> nat \<Rightarrow> Buttons \<Rightarrow> (bool \<times> Buttons) option" where
  "read_and_clear flag buttonId s =
     (if buttonId < length (buttons s) then
        (let b = buttons s ! buttonId;
             bFlag = state b AND flag;
             b' = b\<lparr>state := state b AND NOT flag\<rparr>
         in Some (bFlag \<noteq> 0, s\<lparr>buttons := (buttons s)[buttonId := b']\<rparr>))
      else None)"

definition clicked :: "nat \<Rightarrow> Buttons \<Rightarrow> (bool \<times> Buttons) option" where
  "clicked = read_and_clear CLICKED_FLAG"

definition shortReleased :: "nat \<Rightarrow> Buttons \<Rightarrow> (bool \<times> Buttons) option" where
  "shortReleased = read_and_clear SHORT_RELEASED_FLAG"

definition longReleased :: "nat \<Rightarrow> Buttons \<Rightarrow> (bool \<times> Buttons) option" where
  "longReleased = read_and_clear LONG_RELEASED_FLAG"

definition doubleClicked :: "nat \<Rightarrow> Buttons \<Rightarrow> (bool \<times> Buttons) option" where
  "doubleClicked = read_and_clear DOUBLE_CLICKED_FLAG"

text \<open>\<^verbatim>\<open>down\<close> on one array element, and on the registry with its index.\<close>

definition button_down :: "Button \<Rightarrow> bool" where
  "button_down b = (state b AND PRESSED_FLAG \<noteq> 0)"

definition down :: "nat \<Rightarrow> Buttons \<Rightarrow> bool option" where
  "down buttonId s =
     (if buttonId < length (buttons s) then Some (button_down (buttons s ! buttonId)) else None)"

definition up :: "nat \<Rightarrow> Buttons \<Rightarrow> bool option" where
  "up buttonId s = map_option Not (down buttonId s)"

text \<open>
  The pin levels are an input of the model: \<open>rd i p\<close> is whether the read of pin \<open>p\<close>
  made for the button of index \<open>i\<close> returns \<^verbatim>\<open>HIGH\<close>. The inputs are pulled up, so a
  pressed button reads \<^verbatim>\<open>LOW\<close>.
\<close>

type_synonym pin_levels = "nat \<Rightarrow> u8 \<Rightarrow> bool"

definition polledDown :: "pin_levels \<Rightarrow> nat \<Rightarrow> Buttons \<Rightarrow> bool" where
  "polledDown rd buttonId s = (\<not> rd buttonId (pin (buttons s ! buttonId)))"

section \<open>The interrupt routine\<close>

text \<open>
  The body of the loop of \<^verbatim>\<open>button_ISR\<close> for one element, given the sample
  \<^verbatim>\<open>readState\<close> and the time \<^verbatim>\<open>now\<close> read once before the loop.
\<close>

definition button_ISR_step :: "bool \<Rightarrow> u32 \<Rightarrow> Button \<Rightarrow> Button" where
  "button_ISR_step readState now b =
     (let buttonState = button_down b in
      if readState \<noteq> buttonState then
        (let b1 =
           (if now - lastChangeTime b > BUTTON_DEBOUNCE_DELAY then
              (if readState then
                 (let b2 =
                    (if now - lastClickTime b > DOUBLE_CLICK_DELAY
                     then b\<lparr>state := PRESSED_FLAG OR CLICKED_FLAG\<rparr>
                     else b\<lparr>state := PRESSED_FLAG OR DOUBLE_CLICKED_FLAG\<rparr>)
                  in b2\<lparr>lastClickTime := now\<rparr>)
               else
                 (let b2 = b\<lparr>state := state b AND NOT PRESSED_FLAG\<rparr> in
                  if now - lastClickTime b2 > LONG_RELEASE_DELAY
                  then b2\<lparr>state := state b2 OR LONG_RELEASED_FLAG\<rparr>
                  else b2\<lparr>state := state b2 OR SHORT_RELEASED_FLAG\<rparr>))
            else b)
         in b1\<lparr>lastChangeTime := now\<rparr>)
      else b)"

definition button_ISR_body :: "pin_levels \<Rightarrow> u32 \<Rightarrow> nat \<Rightarrow> Buttons \<Rightarrow> Buttons" where
  "button_ISR_body rd now i s =
     s\<lparr>buttons := (buttons s)[i := button_ISR_step (polledDown rd i s) now (buttons s ! i)]\<rparr>"

definition button_ISR :: "pin_levels \<Rightarrow> u32 \<Rightarrow> Buttons \<Rightarrow> Buttons" where
  "button_ISR rd now s = for_each_button (button_ISR_body rd now) s"

section \<open>Starting and stopping\<close>

definition stop_body :: "nat \<Rightarrow> Buttons \<Rightarrow> Buttons" where
  "stop_body i s = s\<lparr>calls := calls s @ [DetachInterrupt (pin (buttons s ! i))]\<rparr>"

definition stop :: "Buttons \<Rightarrow> Buttons" where
  "stop s = (if \<not> begun s then s else (for_each_button stop_body s)\<lparr>begun := False\<rparr>)"

definition begin_pin_body :: "u8 list \<Rightarrow> nat \<Rightarrow> Buttons \<Rightarrow> Buttons" where
  "begin_pin_body buttonPins i s =
     s\<lparr>buttons := (buttons s)[i := (buttons s ! i)\<lparr>pin := buttonPins ! i\<rparr>],
       calls := calls s @ [PinModePullup (buttonPins ! i)]\<rparr>"

definition begin_attach_body :: "u8 list \<Rightarrow> nat \<Rightarrow> Buttons \<Rightarrow> Buttons" where
  "begin_attach_body buttonPins i s = s\<lparr>calls := calls s @ [AttachInterrupt (buttonPins ! i)]\<rparr>"

text \<open>
  The third loop of \<^verbatim>\<open>begin\<close>: \<^verbatim>\<open>digitalRead\<close> is \<^verbatim>\<open>HIGH\<close> for a released button, and
  \<^verbatim>\<open>millis()\<close> is read anew in every round (\<open>millis i\<close> is the reading of round \<open>i\<close>).
\<close>

definition begin_seed_body :: "pin_levels \<Rightarrow> (nat \<Rightarrow> u32) \<Rightarrow> nat \<Rightarrow> Buttons \<Rightarrow> Buttons" where
  "begin_seed_body rd millis i s =
     (let b = buttons s ! i;
          b1 = b\<lparr>state := (if rd i (pin b) then CLEAR_FLAGS else PRESSED_FLAG)\<rparr>;
          t = millis i;
          b2 = b1\<lparr>lastChangeTime := t\<rparr>;
          b3 = b2\<lparr>lastClickTime := lastChangeTime b2\<rparr>
      in s\<lparr>buttons := (buttons s)[i := b3]\<rparr>)"

text \<open>
  \<^verbatim>\<open>begin\<close> (a keyword here, hence the longer name). The argument is a pointer:
  \<open>None\<close> is \<^verbatim>\<open>nullptr\<close>, \<open>Some pins\<close> points to the array \<open>pins\<close>. The routine reads
  the first \<^verbatim>\<open>NumberOfButtons\<close> elements without knowing the array's size; reading past
  the end of a shorter array is undefined behaviour in the source, and the result \<open>None\<close>
  of the model.
\<close>

definition Buttons_begin ::
  "u8 list option \<Rightarrow> pin_levels \<Rightarrow> (nat \<Rightarrow> u32) \<Rightarrow> Buttons \<Rightarrow> (bool \<times> Buttons) option" where
  "Buttons_begin buttonPins rd millis s =
     (case buttonPins of
        None \<Rightarrow> Some (False, s)
      | Some pins \<Rightarrow>
          if length pins < length (buttons s) then None
          else
            (let s0 = (if begun s then stop s else s);
                 s1 = for_each_button (begin_pin_body pins) s0;
                 s2 = s1\<lparr>calls := calls s1 @ [Delay 10]\<rparr>;
                 s3 = for_each_button (begin_attach_body pins) s2;
                 s4 = for_each_button (begin_seed_body rd millis) s3
             in Some (True, s4\<lparr>begun := True\<rparr>)))"

section \<open>The single-button variant\<close>

text \<open>
  \<^verbatim>\<open>ButtonSingle\<close> has the four data members of \<^verbatim>\<open>Button\<close> (\<^verbatim>\<open>pin\<close>, \<^verbatim>\<open>state\<close>,
  \<^verbatim>\<open>lastChangeTime\<close>, \<^verbatim>\<open>lastClickTime\<close>), so the same record models its objects. Its
  periods are class constants of type \<^verbatim>\<open>unsigned long\<close>; \<^verbatim>\<open>DOUBLE_CLICK_DELAY\<close> has the
  value of the template's macro and shares its definition. The flags at bits 2 and 3
  are named differently.
\<close>

definition DEBOUNCE_DELAY :: u32 where
  "DEBOUNCE_DELAY = 50"

definition LONG_CLICK_DELAY :: u32 where
  "LONG_CLICK_DELAY = 2000"

definition RELEASED_FLAG :: u8 where
  "RELEASED_FLAG = BV 2"

definition LONG_CLICKED_FLAG :: u8 where
  "LONG_CLICKED_FLAG = BV 3"

text \<open>C's \<^verbatim>\<open>a && b\<close> on integers: both operands are nonzero.\<close>

definition logical_and :: "u8 \<Rightarrow> u8 \<Rightarrow> bool" where
  "logical_and a b = (a \<noteq> 0 \<and> b \<noteq> 0)"

text \<open>
  The four clearing accessors of \<^verbatim>\<open>ButtonSingle\<close> share one body up to the flag:
  \<^verbatim>\<open>bool r = state && FLAG; state &= ~FLAG; return r;\<close>
\<close>

definition ButtonSingle_read_and_clear :: "u8 \<Rightarrow> Button \<Rightarrow> bool \<times> Button" where
  "ButtonSingle_read_and_clear flag b =
     (let r = logical_and (state b) flag in (r, b\<lparr>state := state b AND NOT flag\<rparr>))"

definition ButtonSingle_clicked :: "Button \<Rightarrow> bool \<times> Button" where
  "ButtonSingle_clicked = ButtonSingle_read_and_clear CLICKED_FLAG"

definition ButtonSingle_released :: "Button \<Rightarrow> bool \<times> Button" where
  "ButtonSingle_released = ButtonSingle_read_and_clear RELEASED_FLAG"

definition ButtonSingle_longClicked :: "Button \<Rightarrow> bool \<times> Button" where
  "ButtonSingle_longClicked = ButtonSingle_read_and_clear LONG_CLICKED_FLAG"

definition ButtonSingle_doubleClicked :: "Button \<Rightarrow> bool \<times> Button" where
  "ButtonSingle_doubleClicked = ButtonSingle_read_and_clear DOUBLE_CLICKED_FLAG"

definition ButtonSingle_down :: "Button \<Rightarrow> bool" where
  "ButtonSingle_down b = logical_and (state b) PRESSED_FLAG"

text \<open>
  \<^verbatim>\<open>ButtonSingle::button_Handler\<close>; \<open>pinHigh\<close> is the result of \<^verbatim>\<open>digitalRead(pin)\<close>.
\<close>

definition button_Handler :: "bool \<Rightarrow> u32 \<Rightarrow> Button \<Rightarrow> Button" where
  "button_Handler pinHigh now b =
     (let readState = (\<not> pinHigh) in
      if readState \<noteq> logical_and (state b) PRESSED_FLAG then
        (let b1 =
           (if now - lastChangeTime b > DEBOUNCE_DELAY then
              (if readState then
                 (let b2 = b\<lparr>state := CLEAR_FLAGS\<rparr>;
                      b3 = b2\<lparr>state := PRESSED_FLAG OR CLICKED_FLAG\<rparr>;
                      b4 = (if now - lastClickTime b3 > DOUBLE_CLICK_DELAY
                            then b3\<lparr>state := state b3 OR DOUBLE_CLICKED_FLAG\<rparr>
                            else b3)
                  in b4\<lparr>lastClickTime := now\<rparr>)
               else
                 (let b2 = b\<lparr>state := state b AND NOT PRESSED_FLAG\<rparr>;
                      b3 = b2\<lparr>state := state b2 OR RELEASED_FLAG\<rparr>
                  in if now - lastClickTime b3 > LONG_CLICK_DELAY
                     then b3\<lparr>state := state b3 OR LONG_CLICKED_FLAG\<rparr>
                     else b3))
            else b)
         in b1\<lparr>lastChangeTime := now\<rparr>)
      else b)"

section \<open>The older template\<close>

text \<open>
  \<^verbatim>\<open>buttonsTemplateOld.h\<close> keeps the state in three booleans and has one timestamp.
  Its debounce period is the class constant \<^verbatim>\<open>DEBOUNCE_DELAY = 50\<close>, as in the
  single-button variant.
\<close>

record Button_old =
  buttonPin :: u8
  currentState :: bool
  changeFlag :: bool
  longClickFlag :: bool
  lastChangeTimeOld :: u32

text \<open>
  The body of the loop of the older \<^verbatim>\<open>button_ISR\<close> for one element. It calls
  \<^verbatim>\<open>millis()\<close> twice: \<open>millis1\<close> is the reading compared, \<open>millis2\<close> the one stored.
\<close>

definition button_ISR_old_step :: "bool \<Rightarrow> u32 \<Rightarrow> u32 \<Rightarrow> Button_old \<Rightarrow> Button_old" where
  "button_ISR_old_step readState millis1 millis2 b =
     (if readState \<noteq> currentState b then
        (let b1 =
           (if millis1 > lastChangeTimeOld b + DEBOUNCE_DELAY
            then b\<lparr>currentState := readState, changeFlag := True, longClickFlag := True\<rparr>
            else b)
         in b1\<lparr>lastChangeTimeOld := millis2\<rparr>)
      else b)"

section \<open>Vocabulary for the properties\<close>

text \<open>
  The test every accessor of the template makes on the state byte:
  \<^verbatim>\<open>(state & FLAG) != 0\<close>.
\<close>

definition has_flag :: "u8 \<Rightarrow> Button \<Rightarrow> bool" where
  "has_flag flag b = (state b AND flag \<noteq> 0)"

text \<open>Two pin readings used in the examples: every button pressed, every button released.\<close>

definition all_pins_low :: pin_levels where
  "all_pins_low i p = False"

definition all_pins_high :: pin_levels where
  "all_pins_high i p = True"

text \<open>
  The record the third loop of \<^verbatim>\<open>begin\<close> leaves in entry \<open>j\<close>: the pin stored by
  the first loop, the level sampled on that pin, and the clock reading of that round in
  both timestamps.
\<close>

definition seeded :: "u8 list \<Rightarrow> pin_levels \<Rightarrow> (nat \<Rightarrow> u32) \<Rightarrow> nat \<Rightarrow> Button" where
  "seeded pins rd millis j =
     \<lparr>pin = pins ! j, state = (if rd j (pins ! j) then CLEAR_FLAGS else PRESSED_FLAG),
      lastChangeTime = millis j, lastClickTime = millis j\<rparr>"

text \<open>
  A run of the interrupt routine: one invocation per element of the list, each with
  its pin readings and its value of \<^verbatim>\<open>millis()\<close>.
\<close>

fun dispatches :: "(pin_levels \<times> u32) list \<Rightarrow> Buttons \<Rightarrow> Buttons" where
  "dispatches [] s = s"
| "dispatches ((rd, now) # ds) s = dispatches ds (button_ISR rd now s)"

text \<open>The samples \<^verbatim>\<open>polledDown(i)\<close> that button \<open>i\<close> sees in such a run, with their times.\<close>

definition polled :: "nat \<Rightarrow> Buttons \<Rightarrow> (pin_levels \<times> u32) list \<Rightarrow> (bool \<times> u32) list" where
  "polled i s ds = map (\<lambda>(rd, now). (polledDown rd i s, now)) ds"

text \<open>The loop body applied to one button along a list of samples.\<close>

fun button_ISR_steps :: "(bool \<times> u32) list \<Rightarrow> Button \<Rightarrow> Button" where
  "button_ISR_steps [] b = b"
| "button_ISR_steps ((raw, now) # xs) b = button_ISR_steps xs (button_ISR_step raw now b)"

text \<open>
  A burst of bounces, seen from a button whose confirmed state is \<open>confirmed\<close> and whose
  last change was at \<open>t\<close>: every sample that differs from the confirmed state comes at
  most \<^verbatim>\<open>BUTTON_DEBOUNCE_DELAY\<close> after the previous such sample (after \<open>t\<close> for the
  first). Samples that agree with the confirmed state may come at any time.
\<close>

fun bounces_within :: "bool \<Rightarrow> u32 \<Rightarrow> (bool \<times> u32) list \<Rightarrow> bool" where
  "bounces_within confirmed t [] = True"
| "bounces_within confirmed t ((raw, now) # xs) =
     (if raw \<noteq> confirmed
      then now - t \<le> BUTTON_DEBOUNCE_DELAY \<and> bounces_within confirmed now xs
      else bounces_within confirmed t xs)"

text \<open>The time of the last sample that differs from the confirmed state (\<open>t\<close> if none).\<close>

fun last_mismatch :: "bool \<Rightarrow> u32 \<Rightarrow> (bool \<times> u32) list \<Rightarrow> u32" where
  "last_mismatch confirmed t [] = t"
| "last_mismatch confirmed t ((raw, now) # xs) =
     last_mismatch confirmed (if raw \<noteq> confirmed then now else t) xs"

text \<open>
  The registry of the examples: one button on pin 2, started with the button released
  when \<^verbatim>\<open>millis()\<close> reads 10; and the clock of a later restart.
\<close>

definition boot_millis :: "nat \<Rightarrow> u32" where
  "boot_millis i = 10"

definition restart_millis :: "nat \<Rightarrow> u32" where
  "restart_millis i = 5000"

definition started :: Buttons where
  "started =
     (case Buttons_begin (Some [2]) all_pins_high boot_millis (Buttons_static_init 1) of
        Some (ok, s) \<Rightarrow> s
      | None \<Rightarrow> Buttons_static_init 1)"

definition pressed_at_1000 :: Buttons where
  "pressed_at_1000 = button_ISR all_pins_low 1000 started"

definition clicked_once :: Buttons where
  "clicked_once = button_ISR all_pins_high 1100 pressed_at_1000"

definition double_clicked :: Buttons where
  "double_clicked = button_ISR all_pins_high 1400 (button_ISR all_pins_low 1300 clicked_once)"

section \<open>Bits of the state byte\<close>

lemma test_BV: "(x AND BV n \<noteq> 0) = (bit x n \<and> n < 8)"
  unfolding BV_def
  by (auto simp add: bit_eq_iff[where 'a="8 word"] bit_simps dest: bit_imp_le_length)

lemma bit_clear_BV: "bit (x AND NOT (BV n)) m = (bit x m \<and> m \<noteq> n)"
  unfolding BV_def
  by (auto simp add: bit_simps dest: bit_imp_le_length)

lemma bit_set_BV: "bit (x OR BV n) m = (bit x m \<or> (m = n \<and> n < 8))"
  unfolding BV_def
  by (auto simp add: bit_simps)

lemma bit_BV: "bit (BV a) m = (m < 8 \<and> m = a)"
  unfolding BV_def
  by (auto simp add: bit_simps)

lemmas flag_defs = PRESSED_FLAG_def CLICKED_FLAG_def SHORT_RELEASED_FLAG_def
  LONG_RELEASED_FLAG_def DOUBLE_CLICKED_FLAG_def CLEAR_FLAGS_def

lemma button_down_has_flag: "button_down b = has_flag PRESSED_FLAG b"
  by (simp add: button_down_def has_flag_def)

lemma has_flag_bit:
  "has_flag PRESSED_FLAG b = bit (state b) 0"
  "has_flag CLICKED_FLAG b = bit (state b) 1"
  "has_flag SHORT_RELEASED_FLAG b = bit (state b) 2"
  "has_flag LONG_RELEASED_FLAG b = bit (state b) 3"
  "has_flag DOUBLE_CLICKED_FLAG b = bit (state b) 4"
  by (simp_all add: has_flag_def flag_defs test_BV)

lemma bit_flag_ops:
  "bit (x AND NOT PRESSED_FLAG) m = (bit x m \<and> m \<noteq> 0)"
  "bit (x AND NOT CLICKED_FLAG) m = (bit x m \<and> m \<noteq> 1)"
  "bit (x AND NOT SHORT_RELEASED_FLAG) m = (bit x m \<and> m \<noteq> 2)"
  "bit (x AND NOT LONG_RELEASED_FLAG) m = (bit x m \<and> m \<noteq> 3)"
  "bit (x AND NOT DOUBLE_CLICKED_FLAG) m = (bit x m \<and> m \<noteq> 4)"
  "bit (x OR SHORT_RELEASED_FLAG) m = (bit x m \<or> m = 2)"
  "bit (x OR LONG_RELEASED_FLAG) m = (bit x m \<or> m = 3)"
  "bit (PRESSED_FLAG OR CLICKED_FLAG) m = (m = 0 \<or> m = 1)"
  "bit (PRESSED_FLAG OR DOUBLE_CLICKED_FLAG) m = (m = 0 \<or> m = 4)"
  "bit PRESSED_FLAG m = (m = 0)"
  "bit CLEAR_FLAGS m = False"
  by (auto simp add: flag_defs bit_clear_BV bit_set_BV bit_BV)

section \<open>The loop over the buttons\<close>

lemma fold_upt_buttons:
  assumes body: "\<And>i s. buttons (body i s) = (buttons s)[i := f i (buttons s ! i)]"
  shows "n \<le> length (buttons s) \<Longrightarrow>
         buttons (fold body [0..<n] s) =
           map (\<lambda>j. if j < n then f j (buttons s ! j) else buttons s ! j) [0..<length (buttons s)]"
proof (induction n)
  case 0
  then show ?case by (simp add: map_nth)
next
  case (Suc n)
  then have IH: "buttons (fold body [0..<n] s) =
           map (\<lambda>j. if j < n then f j (buttons s ! j) else buttons s ! j) [0..<length (buttons s)]"
    by simp
  have n: "n < length (buttons s)" using Suc.prems by simp
  have "buttons (fold body [0..<Suc n] s) =
          (buttons (fold body [0..<n] s))[n := f n (buttons (fold body [0..<n] s) ! n)]"
    by (simp add: body)
  also have "\<dots> = map (\<lambda>j. if j < Suc n then f j (buttons s ! j) else buttons s ! j)
                      [0..<length (buttons s)]"
    by (rule nth_equalityI) (simp_all add: IH n nth_list_update less_Suc_eq)
  finally show ?case .
qed

lemma for_each_button_buttons:
  assumes body: "\<And>i s. buttons (body i s) = (buttons s)[i := f i (buttons s ! i)]"
  shows "buttons (for_each_button body s) = map (\<lambda>j. f j (buttons s ! j)) [0..<length (buttons s)]"
  unfolding for_each_button_def
  using fold_upt_buttons [of body f "length (buttons s)" s, OF body] by simp

lemma fold_begun:
  assumes "\<And>i s. begun (body i s) = begun s"
  shows "begun (fold body xs s) = begun s"
  by (induction xs arbitrary: s) (simp_all add: assms)

lemma fold_calls:
  assumes "\<And>i s. calls (body i s) = calls s"
  shows "calls (fold body xs s) = calls s"
  by (induction xs arbitrary: s) (simp_all add: assms)

section \<open>One round of the interrupt routine\<close>

lemma button_ISR_buttons:
  "buttons (button_ISR rd now s) =
     map (\<lambda>j. button_ISR_step (\<not> rd j (pin (buttons s ! j))) now (buttons s ! j))
       [0..<length (buttons s)]"
  unfolding button_ISR_def
  by (rule for_each_button_buttons) (simp add: button_ISR_body_def polledDown_def)

lemma button_ISR_nth:
  "i < length (buttons s) \<Longrightarrow>
   buttons (button_ISR rd now s) ! i =
     button_ISR_step (\<not> rd i (pin (buttons s ! i))) now (buttons s ! i)"
  by (simp add: button_ISR_buttons)

lemma button_ISR_length: "length (buttons (button_ISR rd now s)) = length (buttons s)"
  by (simp add: button_ISR_buttons)

lemma button_ISR_begun: "begun (button_ISR rd now s) = begun s"
  unfolding button_ISR_def for_each_button_def
  by (rule fold_begun) (simp add: button_ISR_body_def)

lemma button_ISR_calls: "calls (button_ISR rd now s) = calls s"
  unfolding button_ISR_def for_each_button_def
  by (rule fold_calls) (simp add: button_ISR_body_def)

lemma button_ISR_step_same:
  "readState = button_down b \<Longrightarrow> button_ISR_step readState now b = b"
  by (simp add: button_ISR_step_def)

lemma button_ISR_step_rejected:
  "readState \<noteq> button_down b \<Longrightarrow> now - lastChangeTime b \<le> BUTTON_DEBOUNCE_DELAY \<Longrightarrow>
   button_ISR_step readState now b = b\<lparr>lastChangeTime := now\<rparr>"
  by (simp add: button_ISR_step_def Let_def not_less [symmetric])

lemma button_ISR_step_press:
  "\<not> button_down b \<Longrightarrow> BUTTON_DEBOUNCE_DELAY < now - lastChangeTime b \<Longrightarrow>
   button_ISR_step True now b =
     b\<lparr>state := PRESSED_FLAG OR
                  (if DOUBLE_CLICK_DELAY < now - lastClickTime b then CLICKED_FLAG
                   else DOUBLE_CLICKED_FLAG),
       lastClickTime := now, lastChangeTime := now\<rparr>"
  by (simp add: button_ISR_step_def Let_def)

lemma button_ISR_step_release:
  "button_down b \<Longrightarrow> BUTTON_DEBOUNCE_DELAY < now - lastChangeTime b \<Longrightarrow>
   button_ISR_step False now b =
     b\<lparr>state := (state b AND NOT PRESSED_FLAG) OR
                  (if LONG_RELEASE_DELAY < now - lastClickTime b then LONG_RELEASED_FLAG
                   else SHORT_RELEASED_FLAG),
       lastChangeTime := now\<rparr>"
  by (simp add: button_ISR_step_def Let_def)

text \<open>The definitions unfolded to run the model on a concrete registry.\<close>

lemmas eval_defs = button_ISR_def for_each_button_def Buttons_static_init_def Button_ctor_def
  button_ISR_body_def polledDown_def all_pins_low_def all_pins_high_def button_ISR_step_def
  button_down_def flag_defs BV_def BUTTON_DEBOUNCE_DELAY_def DOUBLE_CLICK_DELAY_def
  LONG_RELEASE_DELAY_def clicked_def shortReleased_def longReleased_def doubleClicked_def
  read_and_clear_def down_def has_flag_def Let_def

lemma for_each_button_other:
  assumes "\<And>i s. body i s = s\<lparr>buttons := g i s\<rparr>"
  shows "for_each_button body s = s\<lparr>buttons := buttons (for_each_button body s)\<rparr>"
proof -
  have "fold body xs s = s\<lparr>buttons := buttons (fold body xs s)\<rparr>" for xs
  proof (induction xs arbitrary: s)
    case Nil
    show ?case by simp
  next
    case (Cons x xs)
    have "fold body (x # xs) s = fold body xs (body x s)" by simp
    also have "\<dots> = (body x s)\<lparr>buttons := buttons (fold body xs (body x s))\<rparr>"
      by (rule Cons.IH)
    also have "\<dots> = s\<lparr>buttons := buttons (fold body (x # xs) s)\<rparr>"
      by (simp add: assms [of x s])
    finally show ?case .
  qed
  then show ?thesis by (simp add: for_each_button_def)
qed

lemma button_ISR_eq:
  "button_ISR rd now s =
     s\<lparr>buttons := map (\<lambda>j. button_ISR_step (\<not> rd j (pin (buttons s ! j))) now (buttons s ! j))
       [0..<length (buttons s)]\<rparr>"
proof -
  have "button_ISR rd now s = s\<lparr>buttons := buttons (button_ISR rd now s)\<rparr>"
    unfolding button_ISR_def
    by (rule for_each_button_other) (simp add: button_ISR_body_def)
  then show ?thesis by (simp add: button_ISR_buttons)
qed

lemma button_ISR_step_pin: "pin (button_ISR_step raw now b) = pin b"
  by (simp add: button_ISR_step_def Let_def)

text \<open>
  The loop body reads the clock only through differences: moving \<^verbatim>\<open>now\<close> and both
  timestamps by the same amount \<open>k\<close>, across the wrap-around or not, moves the result
  by \<open>k\<close> and changes nothing else.
\<close>

lemma button_ISR_step_shift:
  "button_ISR_step raw (now + k)
     (b\<lparr>lastChangeTime := lastChangeTime b + k, lastClickTime := lastClickTime b + k\<rparr>) =
   (button_ISR_step raw now b)
     \<lparr>lastChangeTime := lastChangeTime (button_ISR_step raw now b) + k,
      lastClickTime := lastClickTime (button_ISR_step raw now b) + k\<rparr>"
  by (simp add: button_ISR_step_def Let_def button_down_def)

section \<open>The loops of stop and begin\<close>

lemma fold_calls_append:
  assumes step: "\<And>i s. P s \<Longrightarrow> P (body i s) \<and> calls (body i s) = calls s @ [g i]"
    and "P s"
  shows "calls (fold body xs s) = calls s @ map g xs"
  using \<open>P s\<close>
proof (induction xs arbitrary: s)
  case Nil
  show ?case by simp
next
  case (Cons x xs)
  from step [OF Cons.prems, of x] have "P (body x s)" and c: "calls (body x s) = calls s @ [g x]"
    by simp_all
  from Cons.IH [OF \<open>P (body x s)\<close>] show ?case by (simp add: c)
qed

lemma stop_body_loop_buttons: "buttons (for_each_button stop_body s) = buttons s"
proof -
  have "buttons (for_each_button stop_body s) = map (\<lambda>j. buttons s ! j) [0..<length (buttons s)]"
    by (rule for_each_button_buttons) (simp add: stop_body_def)
  then show ?thesis by (simp add: map_nth)
qed

lemma stop_body_loop_begun: "begun (for_each_button stop_body s) = begun s"
  unfolding for_each_button_def by (rule fold_begun) (simp add: stop_body_def)

lemma stop_body_loop_calls:
  "calls (for_each_button stop_body s) =
     calls s @ map (\<lambda>j. DetachInterrupt (pin (buttons s ! j))) [0..<length (buttons s)]"
  unfolding for_each_button_def
  by (rule fold_calls_append [where P = "\<lambda>s'. buttons s' = buttons s"])
     (simp_all add: stop_body_def)

lemma stop_buttons: "buttons (stop s) = buttons s"
  by (simp add: stop_def stop_body_loop_buttons)

lemma stop_begun: "\<not> begun (stop s)"
  by (simp add: stop_def)

lemma stop_calls:
  "calls (stop s) =
     calls s @ (if begun s
                then map (\<lambda>j. DetachInterrupt (pin (buttons s ! j))) [0..<length (buttons s)]
                else [])"
  by (simp add: stop_def stop_body_loop_calls)

lemma begin_pin_loop_buttons:
  "buttons (for_each_button (begin_pin_body pins) s) =
     map (\<lambda>j. (buttons s ! j)\<lparr>pin := pins ! j\<rparr>) [0..<length (buttons s)]"
  by (rule for_each_button_buttons) (simp add: begin_pin_body_def)

lemma begin_pin_loop_calls:
  "calls (for_each_button (begin_pin_body pins) s) =
     calls s @ map (\<lambda>j. PinModePullup (pins ! j)) [0..<length (buttons s)]"
  unfolding for_each_button_def
  by (rule fold_calls_append [where P = "\<lambda>s'. True"]) (simp_all add: begin_pin_body_def)

lemma begin_attach_loop_buttons:
  "buttons (for_each_button (begin_attach_body pins) s) = buttons s"
proof -
  have "buttons (for_each_button (begin_attach_body pins) s) =
          map (\<lambda>j. buttons s ! j) [0..<length (buttons s)]"
    by (rule for_each_button_buttons) (simp add: begin_attach_body_def)
  then show ?thesis by (simp add: map_nth)
qed

lemma begin_attach_loop_calls:
  "calls (for_each_button (begin_attach_body pins) s) =
     calls s @ map (\<lambda>j. AttachInterrupt (pins ! j)) [0..<length (buttons s)]"
  unfolding for_each_button_def
  by (rule fold_calls_append [where P = "\<lambda>s'. True"]) (simp_all add: begin_attach_body_def)

lemma begin_seed_loop_buttons:
  "buttons (for_each_button (begin_seed_body rd millis) s) =
     map (\<lambda>j. (buttons s ! j)\<lparr>state := (if rd j (pin (buttons s ! j)) then CLEAR_FLAGS
                                         else PRESSED_FLAG),
                               lastChangeTime := millis j, lastClickTime := millis j\<rparr>)
       [0..<length (buttons s)]"
  by (rule for_each_button_buttons) (simp add: begin_seed_body_def Let_def)

lemma begin_seed_loop_calls:
  "calls (for_each_button (begin_seed_body rd millis) s) = calls s"
  unfolding for_each_button_def by (rule fold_calls) (simp add: begin_seed_body_def Let_def)

lemma Buttons_begin_Some:
  assumes "length (buttons s) \<le> length pins"
  shows "\<exists>s'. Buttons_begin (Some pins) rd millis s = Some (True, s')
            \<and> begun s'
            \<and> buttons s' = map (seeded pins rd millis) [0..<length (buttons s)]
            \<and> calls s' = calls (if begun s then stop s else s)
                 @ map (\<lambda>j. PinModePullup (pins ! j)) [0..<length (buttons s)]
                 @ [Delay 10]
                 @ map (\<lambda>j. AttachInterrupt (pins ! j)) [0..<length (buttons s)]"
proof -
  let ?s0 = "if begun s then stop s else s"
  have b0: "buttons ?s0 = buttons s" by (simp add: stop_buttons)
  show ?thesis
    using assms
    apply (simp add: Buttons_begin_def Let_def del: upt_Suc)
    apply (intro conjI impI)
    apply (simp_all add: begin_seed_loop_buttons begin_seed_loop_calls begin_attach_loop_buttons
        begin_attach_loop_calls begin_pin_loop_buttons begin_pin_loop_calls stop_buttons seeded_def
        del: upt_Suc)
    done
qed

section \<open>The example registries\<close>

lemmas begin_defs = Buttons_begin_def stop_def stop_body_def begin_pin_body_def
  begin_attach_body_def begin_seed_body_def boot_millis_def restart_millis_def

lemma started_eq:
  "started = \<lparr>buttons = [\<lparr>pin = 2, state = 0, lastChangeTime = 10, lastClickTime = 10\<rparr>],
              begun = True, calls = [PinModePullup 2, Delay 10, AttachInterrupt 2]\<rparr>"
  by (simp add: started_def begin_defs eval_defs)

lemma pressed_at_1000_eq:
  "pressed_at_1000 =
     \<lparr>buttons = [\<lparr>pin = 2, state = 3, lastChangeTime = 1000, lastClickTime = 1000\<rparr>],
      begun = True, calls = [PinModePullup 2, Delay 10, AttachInterrupt 2]\<rparr>"
  by (simp add: pressed_at_1000_def started_eq eval_defs)

lemma clicked_once_eq:
  "clicked_once =
     \<lparr>buttons = [\<lparr>pin = 2, state = 6, lastChangeTime = 1100, lastClickTime = 1000\<rparr>],
      begun = True, calls = [PinModePullup 2, Delay 10, AttachInterrupt 2]\<rparr>"
  by (simp add: clicked_once_def pressed_at_1000_eq eval_defs)

lemma double_clicked_eq:
  "double_clicked =
     \<lparr>buttons = [\<lparr>pin = 2, state = 20, lastChangeTime = 1400, lastClickTime = 1300\<rparr>],
      begun = True, calls = [PinModePullup 2, Delay 10, AttachInterrupt 2]\<rparr>"
  by (simp add: double_clicked_def clicked_once_eq eval_defs)

section \<open>An accepted press\<close>

text \<open>
  Claim C1, as the code has it. When the interrupt routine accepts a press of button
  \<open>i\<close> (the sample is active, the confirmed state is released, and more than
  \<^verbatim>\<open>BUTTON_DEBOUNCE_DELAY\<close> has passed since \<^verbatim>\<open>lastChangeTime\<close>), the button becomes
  down, exactly one of the two click flags is set -- the double-click flag if and only
  if \<open>now - lastClickTime \<le> DOUBLE_CLICK_DELAY\<close>, the clicked flag otherwise -- and
  both timestamps become \<open>now\<close>.
\<close>

theorem press_accepted:
  assumes "i < length (buttons s)"
    and "polledDown rd i s"
    and "down i s = Some False"
    and "BUTTON_DEBOUNCE_DELAY < now - lastChangeTime (buttons s ! i)"
  shows "down i (button_ISR rd now s) = Some True
       \<and> has_flag CLICKED_FLAG (buttons (button_ISR rd now s) ! i)
           = (DOUBLE_CLICK_DELAY < now - lastClickTime (buttons s ! i))
       \<and> has_flag DOUBLE_CLICKED_FLAG (buttons (button_ISR rd now s) ! i)
           = (now - lastClickTime (buttons s ! i) \<le> DOUBLE_CLICK_DELAY)
       \<and> lastClickTime (buttons (button_ISR rd now s) ! i) = now
       \<and> lastChangeTime (buttons (button_ISR rd now s) ! i) = now"
proof -
  let ?b = "buttons s ! i"
  have rd: "\<not> rd i (pin ?b)" using assms(2) by (simp add: polledDown_def)
  have up: "\<not> button_down ?b" using assms(1,3) by (simp add: down_def)
  have step: "buttons (button_ISR rd now s) ! i = button_ISR_step True now ?b"
    using assms(1) rd by (simp add: button_ISR_nth)
  show ?thesis
    using assms(1)
    by (auto simp add: step button_ISR_step_press [OF up assms(4)] down_def button_ISR_length
        button_down_has_flag has_flag_bit bit_flag_ops not_le)
qed

text \<open>
  The theorem at the first press of the example, 990 ms after the start: a plain click.
\<close>

theorem press_accepted_witness:
  "0 < length (buttons started)
   \<and> polledDown all_pins_low 0 started
   \<and> down 0 started = Some False
   \<and> BUTTON_DEBOUNCE_DELAY < 1000 - lastChangeTime (buttons started ! 0)
   \<and> down 0 (button_ISR all_pins_low 1000 started) = Some True
   \<and> has_flag CLICKED_FLAG (buttons (button_ISR all_pins_low 1000 started) ! 0)
   \<and> \<not> has_flag DOUBLE_CLICKED_FLAG (buttons (button_ISR all_pins_low 1000 started) ! 0)
   \<and> lastClickTime (buttons (button_ISR all_pins_low 1000 started) ! 0) = 1000"
proof -
  have h1: "0 < length (buttons started)"
    by (simp add: started_eq)
  have h2: "polledDown all_pins_low 0 started"
    by (simp add: started_eq eval_defs)
  have h3: "down 0 started = Some False"
    by (simp add: started_eq eval_defs)
  have h4: "BUTTON_DEBOUNCE_DELAY < 1000 - lastChangeTime (buttons started ! 0)"
    by (simp add: started_eq eval_defs)
  show ?thesis
    using h1 h2 h3 h4 press_accepted [OF h1 h2 h3 h4]
    by (simp add: started_eq DOUBLE_CLICK_DELAY_def)
qed

text \<open>
  The claim as written has the clicked flag set by every accepted press. In the
  example the button is pressed at 1000, released at 1100 and pressed again at 1300,
  inside the double-click window. The second press is accepted and sets the
  double-click flag only: \<^verbatim>\<open>clicked(0)\<close> returns false after it.
\<close>

theorem double_click_press_not_clicked:
  "polledDown all_pins_low 0 clicked_once
   \<and> down 0 clicked_once = Some False
   \<and> BUTTON_DEBOUNCE_DELAY < 1300 - lastChangeTime (buttons clicked_once ! 0)
   \<and> map_option fst (clicked 0 (button_ISR all_pins_low 1300 clicked_once)) = Some False
   \<and> map_option fst (doubleClicked 0 (button_ISR all_pins_low 1300 clicked_once)) = Some True"
  by (simp add: clicked_once_eq eval_defs)

section \<open>What a round of the routine does to unread flags\<close>

text \<open>
  Claim C2, as the code has it. A round of the interrupt routine does one of three
  things to the state byte of button \<open>i\<close>.

  An accepted release clears the pressed bit and sets its own classification bit, the
  long-release flag if \<open>now - lastClickTime > LONG_RELEASE_DELAY\<close> and the
  short-release flag otherwise, and nothing else: the clicked and double-click flags
  are what they were, and a release flag is set afterwards exactly if it was set
  before or is the one just set.

  A rejected transition and a round without transition leave the state byte as it is.

  An accepted press sets its own bits only, the pressed bit and exactly one of the
  clicked and double-click flags, but it assigns the whole byte: the short-release and
  long-release flags and the other click flag are clear afterwards, whatever was
  unread.
\<close>

theorem flags_across_one_dispatch:
  assumes "i < length (buttons s)"
  shows
    "(polledDown rd i s \<and> down i s = Some False
        \<and> BUTTON_DEBOUNCE_DELAY < now - lastChangeTime (buttons s ! i)
      \<longrightarrow>
        (state (buttons (button_ISR rd now s) ! i) =
           PRESSED_FLAG OR
             (if DOUBLE_CLICK_DELAY < now - lastClickTime (buttons s ! i)
              then CLICKED_FLAG else DOUBLE_CLICKED_FLAG)
         \<and> has_flag PRESSED_FLAG (buttons (button_ISR rd now s) ! i)
         \<and> has_flag CLICKED_FLAG (buttons (button_ISR rd now s) ! i)
             = (DOUBLE_CLICK_DELAY < now - lastClickTime (buttons s ! i))
         \<and> has_flag DOUBLE_CLICKED_FLAG (buttons (button_ISR rd now s) ! i)
             = (now - lastClickTime (buttons s ! i) \<le> DOUBLE_CLICK_DELAY)
         \<and> \<not> has_flag SHORT_RELEASED_FLAG (buttons (button_ISR rd now s) ! i)
         \<and> \<not> has_flag LONG_RELEASED_FLAG (buttons (button_ISR rd now s) ! i)))
   \<and> (\<not> polledDown rd i s \<and> down i s = Some True
        \<and> BUTTON_DEBOUNCE_DELAY < now - lastChangeTime (buttons s ! i)
      \<longrightarrow>
        (state (buttons (button_ISR rd now s) ! i) =
           (state (buttons s ! i) AND NOT PRESSED_FLAG) OR
             (if LONG_RELEASE_DELAY < now - lastClickTime (buttons s ! i)
              then LONG_RELEASED_FLAG else SHORT_RELEASED_FLAG)
         \<and> \<not> has_flag PRESSED_FLAG (buttons (button_ISR rd now s) ! i)
         \<and> has_flag CLICKED_FLAG (buttons (button_ISR rd now s) ! i)
             = has_flag CLICKED_FLAG (buttons s ! i)
         \<and> has_flag DOUBLE_CLICKED_FLAG (buttons (button_ISR rd now s) ! i)
             = has_flag DOUBLE_CLICKED_FLAG (buttons s ! i)
         \<and> has_flag SHORT_RELEASED_FLAG (buttons (button_ISR rd now s) ! i)
             = (has_flag SHORT_RELEASED_FLAG (buttons s ! i)
                \<or> now - lastClickTime (buttons s ! i) \<le> LONG_RELEASE_DELAY)
         \<and> has_flag LONG_RELEASED_FLAG (buttons (button_ISR rd now s) ! i)
             = (has_flag LONG_RELEASED_FLAG (buttons s ! i)
                \<or> LONG_RELEASE_DELAY < now - lastClickTime (buttons s ! i))))
   \<and> (down i s = Some (polledDown rd i s)
        \<or> now - lastChangeTime (buttons s ! i) \<le> BUTTON_DEBOUNCE_DELAY
      \<longrightarrow> state (buttons (button_ISR rd now s) ! i) = state (buttons s ! i))"
proof -
  let ?b = "buttons s ! i"
  let ?raw = "\<not> rd i (pin ?b)"
  have step: "buttons (button_ISR rd now s) ! i = button_ISR_step ?raw now ?b"
    using assms by (simp add: button_ISR_nth)
  have dn: "down i s = Some (button_down ?b)" using assms by (simp add: down_def)
  have pd: "polledDown rd i s = ?raw" by (simp add: polledDown_def)
  {
    assume a: "polledDown rd i s \<and> down i s = Some False
        \<and> BUTTON_DEBOUNCE_DELAY < now - lastChangeTime (buttons s ! i)"
    then have up: "\<not> button_down ?b" and raw: "?raw"
      and t: "BUTTON_DEBOUNCE_DELAY < now - lastChangeTime ?b"
      by (simp_all add: dn pd)
    have eq: "buttons (button_ISR rd now s) ! i = button_ISR_step True now ?b"
      using step raw by simp
    have "state (buttons (button_ISR rd now s) ! i) =
           PRESSED_FLAG OR
             (if DOUBLE_CLICK_DELAY < now - lastClickTime (buttons s ! i)
              then CLICKED_FLAG else DOUBLE_CLICKED_FLAG)
         \<and> has_flag PRESSED_FLAG (buttons (button_ISR rd now s) ! i)
         \<and> has_flag CLICKED_FLAG (buttons (button_ISR rd now s) ! i)
             = (DOUBLE_CLICK_DELAY < now - lastClickTime (buttons s ! i))
         \<and> has_flag DOUBLE_CLICKED_FLAG (buttons (button_ISR rd now s) ! i)
             = (now - lastClickTime (buttons s ! i) \<le> DOUBLE_CLICK_DELAY)
         \<and> \<not> has_flag SHORT_RELEASED_FLAG (buttons (button_ISR rd now s) ! i)
         \<and> \<not> has_flag LONG_RELEASED_FLAG (buttons (button_ISR rd now s) ! i)"
      by (auto simp add: eq button_ISR_step_press [OF up t] has_flag_bit bit_flag_ops not_le)
  }
  moreover
  {
    assume a: "\<not> polledDown rd i s \<and> down i s = Some True
        \<and> BUTTON_DEBOUNCE_DELAY < now - lastChangeTime (buttons s ! i)"
    then have d: "button_down ?b" and raw: "\<not> ?raw"
      and t: "BUTTON_DEBOUNCE_DELAY < now - lastChangeTime ?b"
      by (simp_all add: dn pd)
    have eq: "buttons (button_ISR rd now s) ! i = button_ISR_step False now ?b"
      using step raw by simp
    have "state (buttons (button_ISR rd now s) ! i) =
           (state (buttons s ! i) AND NOT PRESSED_FLAG) OR
             (if LONG_RELEASE_DELAY < now - lastClickTime (buttons s ! i)
              then LONG_RELEASED_FLAG else SHORT_RELEASED_FLAG)
         \<and> \<not> has_flag PRESSED_FLAG (buttons (button_ISR rd now s) ! i)
         \<and> has_flag CLICKED_FLAG (buttons (button_ISR rd now s) ! i)
             = has_flag CLICKED_FLAG (buttons s ! i)
         \<and> has_flag DOUBLE_CLICKED_FLAG (buttons (button_ISR rd now s) ! i)
             = has_flag DOUBLE_CLICKED_FLAG (buttons s ! i)
         \<and> has_flag SHORT_RELEASED_FLAG (buttons (button_ISR rd now s) ! i)
             = (has_flag SHORT_RELEASED_FLAG (buttons s ! i)
                \<or> now - lastClickTime (buttons s ! i) \<le> LONG_RELEASE_DELAY)
         \<and> has_flag LONG_RELEASED_FLAG (buttons (button_ISR rd now s) ! i)
             = (has_flag LONG_RELEASED_FLAG (buttons s ! i)
                \<or> LONG_RELEASE_DELAY < now - lastClickTime (buttons s ! i))"
      by (auto simp add: eq button_ISR_step_release [OF d t] has_flag_bit bit_flag_ops not_le)
  }
  moreover
  {
    assume a: "down i s = Some (polledDown rd i s)
        \<or> now - lastChangeTime (buttons s ! i) \<le> BUTTON_DEBOUNCE_DELAY"
    have "state (buttons (button_ISR rd now s) ! i) = state (buttons s ! i)"
    proof (cases "?raw = button_down ?b")
      case True
      then show ?thesis by (simp add: step button_ISR_step_same)
    next
      case False
      then have "now - lastChangeTime ?b \<le> BUTTON_DEBOUNCE_DELAY"
        using a by (auto simp add: dn pd)
      from button_ISR_step_rejected [OF False this] show ?thesis by (simp add: step)
    qed
  }
  ultimately show ?thesis by blast
qed

text \<open>
  The three cases on the example: the release at 1100 keeps the unread click of the
  press at 1000 and adds the short-release flag only (state byte 6); the press at 1300
  then leaves the pressed bit and the double-click flag only (state byte 17); a bounce
  at 20, ten milliseconds after the start, leaves the state byte 0.
\<close>

theorem flags_across_one_dispatch_witness:
  "0 < length (buttons pressed_at_1000)
   \<and> \<not> polledDown all_pins_high 0 pressed_at_1000
   \<and> down 0 pressed_at_1000 = Some True
   \<and> BUTTON_DEBOUNCE_DELAY < 1100 - lastChangeTime (buttons pressed_at_1000 ! 0)
   \<and> state (buttons pressed_at_1000 ! 0) = 3
   \<and> state (buttons (button_ISR all_pins_high 1100 pressed_at_1000) ! 0) = 6
   \<and> has_flag CLICKED_FLAG (buttons (button_ISR all_pins_high 1100 pressed_at_1000) ! 0)
   \<and> has_flag SHORT_RELEASED_FLAG (buttons (button_ISR all_pins_high 1100 pressed_at_1000) ! 0)
   \<and> \<not> has_flag DOUBLE_CLICKED_FLAG (buttons (button_ISR all_pins_high 1100 pressed_at_1000) ! 0)
   \<and> 0 < length (buttons clicked_once)
   \<and> polledDown all_pins_low 0 clicked_once
   \<and> down 0 clicked_once = Some False
   \<and> BUTTON_DEBOUNCE_DELAY < 1300 - lastChangeTime (buttons clicked_once ! 0)
   \<and> has_flag SHORT_RELEASED_FLAG (buttons clicked_once ! 0)
   \<and> state (buttons (button_ISR all_pins_low 1300 clicked_once) ! 0) = 17
   \<and> \<not> has_flag SHORT_RELEASED_FLAG (buttons (button_ISR all_pins_low 1300 clicked_once) ! 0)
   \<and> 0 < length (buttons started)
   \<and> 20 - lastChangeTime (buttons started ! 0) \<le> BUTTON_DEBOUNCE_DELAY
   \<and> state (buttons (button_ISR all_pins_low 20 started) ! 0) = state (buttons started ! 0)"
proof -
  have a1: "0 < length (buttons pressed_at_1000)"
    by (simp add: pressed_at_1000_eq)
  have b1: "0 < length (buttons clicked_once)"
    by (simp add: clicked_once_eq)
  have c1: "0 < length (buttons started)"
    by (simp add: started_eq)
  show ?thesis
    using flags_across_one_dispatch [OF a1, of all_pins_high 1100]
      flags_across_one_dispatch [OF b1, of all_pins_low 1300]
      flags_across_one_dispatch [OF c1, of all_pins_low 20]
    by (simp add: pressed_at_1000_eq clicked_once_eq started_eq eval_defs)
qed

text \<open>
  The claim as written has an accepted press leave unread flags set. After the double
  click of the example (presses at 1000 and 1300, releases at 1100 and 1400) both
  \<^verbatim>\<open>shortReleased(0)\<close> and \<^verbatim>\<open>doubleClicked(0)\<close> would return true; once a press at 3000
  has been accepted, both return false.
\<close>

theorem press_clears_unread_flags:
  "map_option fst (shortReleased 0 double_clicked) = Some True
   \<and> map_option fst (doubleClicked 0 double_clicked) = Some True
   \<and> polledDown all_pins_low 0 double_clicked
   \<and> down 0 double_clicked = Some False
   \<and> BUTTON_DEBOUNCE_DELAY < 3000 - lastChangeTime (buttons double_clicked ! 0)
   \<and> map_option fst (shortReleased 0 (button_ISR all_pins_low 3000 double_clicked)) = Some False
   \<and> map_option fst (doubleClicked 0 (button_ISR all_pins_low 3000 double_clicked)) = Some False"
  by (simp add: double_clicked_eq eval_defs)

section \<open>A burst of bounces\<close>

lemma polled_button_ISR:
  "i < length (buttons s) \<Longrightarrow> polled i (button_ISR rd now s) ds = polled i s ds"
  by (simp add: polled_def polledDown_def button_ISR_nth button_ISR_step_pin)

lemma dispatches_nth:
  "i < length (buttons s) \<Longrightarrow>
   buttons (dispatches ds s) ! i = button_ISR_steps (polled i s ds) (buttons s ! i)"
proof (induction ds arbitrary: s)
  case Nil
  show ?case by (simp add: polled_def)
next
  case (Cons d ds)
  obtain rd now where d: "d = (rd, now)" by (cases d)
  have i': "i < length (buttons (button_ISR rd now s))"
    using Cons.prems by (simp add: button_ISR_length)
  have "buttons (dispatches (d # ds) s) ! i =
          button_ISR_steps (polled i (button_ISR rd now s) ds) (buttons (button_ISR rd now s) ! i)"
    using Cons.IH [OF i'] by (simp add: d)
  also have "\<dots> = button_ISR_steps (polled i s (d # ds)) (buttons s ! i)"
    using Cons.prems
    by (simp add: polled_button_ISR button_ISR_nth) (simp add: polled_def d polledDown_def)
  finally show ?case .
qed

lemma button_ISR_steps_bounces:
  "bounces_within (button_down b) (lastChangeTime b) xs \<Longrightarrow>
   button_ISR_steps xs b = b\<lparr>lastChangeTime := last_mismatch (button_down b) (lastChangeTime b) xs\<rparr>"
proof (induction xs arbitrary: b)
  case Nil
  show ?case by simp
next
  case (Cons x xs)
  obtain raw now where x: "x = (raw, now)" by (cases x)
  show ?case
  proof (cases "raw = button_down b")
    case True
    then have "bounces_within (button_down b) (lastChangeTime b) xs"
      using Cons.prems by (simp add: x)
    from Cons.IH [OF this] show ?thesis
      using True by (simp add: x button_ISR_step_same)
  next
    case False
    then have w: "now - lastChangeTime b \<le> BUTTON_DEBOUNCE_DELAY"
      and rest: "bounces_within (button_down b) now xs"
      using Cons.prems by (simp_all add: x)
    let ?b' = "b\<lparr>lastChangeTime := now\<rparr>"
    have st: "button_ISR_step raw now b = ?b'"
      by (rule button_ISR_step_rejected [OF False w])
    have dn: "button_down ?b' = button_down b" by (simp add: button_down_def)
    have "bounces_within (button_down ?b') (lastChangeTime ?b') xs"
      using rest by (simp add: dn)
    from Cons.IH [OF this]
    have "button_ISR_steps xs ?b' = b\<lparr>lastChangeTime := last_mismatch (button_down b) now xs\<rparr>"
      by (simp add: dn)
    moreover have "button_ISR_steps (x # xs) b = button_ISR_steps xs ?b'"
      by (simp add: x st)
    moreover have "last_mismatch (button_down b) (lastChangeTime b) (x # xs) =
                   last_mismatch (button_down b) now xs"
      using False by (simp add: x)
    ultimately show ?thesis by simp
  qed
qed

lemma bounces_within_take:
  "bounces_within c t xs \<Longrightarrow> bounces_within c t (take k xs)"
proof (induction xs arbitrary: t k)
  case Nil
  show ?case by simp
next
  case (Cons x xs)
  obtain raw now where x: "x = (raw, now)" by (cases x)
  show ?case
  proof (cases k)
    case 0
    then show ?thesis by simp
  next
    case (Suc k')
    then show ?thesis using Cons.prems Cons.IH by (simp add: x)
  qed
qed

text \<open>
  Claim C3, as the code has it. Take any run of the interrupt routine in which every
  sample of button \<open>i\<close> that differs from its confirmed state comes at most
  \<^verbatim>\<open>BUTTON_DEBOUNCE_DELAY\<close> after the previous such sample (after \<^verbatim>\<open>lastChangeTime\<close>
  for the first). After every prefix of the run the button is what it was, except
  that \<^verbatim>\<open>lastChangeTime\<close> is the time of the last sample that differed: the confirmed
  state, the flags and \<^verbatim>\<open>lastClickTime\<close> never change, and a sample that agrees with
  the confirmed state leaves \<^verbatim>\<open>lastChangeTime\<close> alone.
\<close>

theorem bounces_leave_confirmed_state:
  assumes "i < length (buttons s)"
    and "bounces_within (button_down (buttons s ! i)) (lastChangeTime (buttons s ! i)) (polled i s ds)"
  shows "buttons (dispatches (take k ds) s) ! i =
           (buttons s ! i)\<lparr>lastChangeTime :=
              last_mismatch (button_down (buttons s ! i)) (lastChangeTime (buttons s ! i))
                (take k (polled i s ds))\<rparr>
       \<and> down i (dispatches (take k ds) s) = down i s"
proof -
  let ?b = "buttons s ! i"
  have tk: "polled i s (take k ds) = take k (polled i s ds)"
    by (simp add: polled_def take_map)
  have "bounces_within (button_down ?b) (lastChangeTime ?b) (take k (polled i s ds))"
    by (rule bounces_within_take [OF assms(2)])
  then have eq: "buttons (dispatches (take k ds) s) ! i =
           ?b\<lparr>lastChangeTime :=
              last_mismatch (button_down ?b) (lastChangeTime ?b) (take k (polled i s ds))\<rparr>"
    using assms(1) by (simp add: dispatches_nth tk button_ISR_steps_bounces)
  have len: "length (buttons (dispatches ds' s')) = length (buttons s')" for ds' s'
    by (induction ds' arbitrary: s') (auto simp add: button_ISR_length)
  show ?thesis
    using assms(1) by (simp add: eq down_def len button_down_def)
qed

text \<open>
  The theorem on three bounces after the start of the example (pressed at 20,
  released at 30, pressed at 35).
\<close>

theorem bounces_leave_confirmed_state_witness:
  "0 < length (buttons started)
   \<and> bounces_within (button_down (buttons started ! 0)) (lastChangeTime (buttons started ! 0))
        (polled 0 started [(all_pins_low, 20), (all_pins_high, 30), (all_pins_low, 35)])
   \<and> buttons (dispatches [(all_pins_low, 20), (all_pins_high, 30), (all_pins_low, 35)] started) ! 0
       = \<lparr>pin = 2, state = 0, lastChangeTime = 35, lastClickTime = 10\<rparr>
   \<and> down 0 (dispatches [(all_pins_low, 20), (all_pins_high, 30), (all_pins_low, 35)] started)
       = Some False"
proof -
  have h1: "0 < length (buttons started)"
    by (simp add: started_eq)
  have h2: "bounces_within (button_down (buttons started ! 0))
              (lastChangeTime (buttons started ! 0))
              (polled 0 started [(all_pins_low, 20), (all_pins_high, 30), (all_pins_low, 35)])"
    by (simp add: started_eq polled_def eval_defs)
  show ?thesis
    using h1 h2
      bounces_leave_confirmed_state [OF h1 h2, of 3]
    by (simp add: started_eq polled_def eval_defs)
qed

text \<open>
  The claim as written has \<^verbatim>\<open>lastChangeTime\<close> advance to the time of the last flip.
  Two flips after the start of the example, both well inside the window: the level
  goes to pressed at 20 (rejected, \<^verbatim>\<open>lastChangeTime\<close> becomes 20) and back to released
  at 30. The second flip agrees with the confirmed state and is ignored:
  \<^verbatim>\<open>lastChangeTime\<close> stays 20.
\<close>

theorem flip_back_keeps_lastChangeTime:
  "(20 :: u32) - lastChangeTime (buttons started ! 0) < BUTTON_DEBOUNCE_DELAY
   \<and> (30 :: u32) - 20 < BUTTON_DEBOUNCE_DELAY
   \<and> polledDown all_pins_low 0 started
   \<and> \<not> polledDown all_pins_high 0 (button_ISR all_pins_low 20 started)
   \<and> lastChangeTime (buttons (dispatches [(all_pins_low, 20), (all_pins_high, 30)] started) ! 0)
       = 20
   \<and> lastChangeTime (buttons (dispatches [(all_pins_low, 20), (all_pins_high, 30)] started) ! 0)
       \<noteq> 30"
  by (simp add: started_eq eval_defs)

section \<open>Short and long releases\<close>

text \<open>
  What the code does with a release. A press of button \<open>i\<close> is accepted at time
  \<open>t\<close>; any burst of bounces follows, each rejected, which moves \<^verbatim>\<open>lastChangeTime\<close>
  but not \<^verbatim>\<open>lastClickTime\<close>; the release is accepted at time \<open>t'\<close>. The release sets
  exactly one of the two release flags, and the hold it classifies is \<open>t' - t\<close>,
  measured from the accepted press: long if and only if
  \<open>t' - t > LONG_RELEASE_DELAY\<close>, short if and only if \<open>t' - t \<le> LONG_RELEASE_DELAY\<close>.
\<close>

lemma release_classified_from_press_time:
  assumes "i < length (buttons s)"
    and "polledDown rd1 i s"
    and "down i s = Some False"
    and "BUTTON_DEBOUNCE_DELAY < t - lastChangeTime (buttons s ! i)"
    and "bounces_within True t (polled i (button_ISR rd1 t s) ds)"
    and "\<not> polledDown rd2 i (dispatches ds (button_ISR rd1 t s))"
    and "BUTTON_DEBOUNCE_DELAY < t' - last_mismatch True t (polled i (button_ISR rd1 t s) ds)"
  shows "down i (button_ISR rd2 t' (dispatches ds (button_ISR rd1 t s))) = Some False
       \<and> has_flag LONG_RELEASED_FLAG
            (buttons (button_ISR rd2 t' (dispatches ds (button_ISR rd1 t s))) ! i)
           = (LONG_RELEASE_DELAY < t' - t)
       \<and> has_flag SHORT_RELEASED_FLAG
            (buttons (button_ISR rd2 t' (dispatches ds (button_ISR rd1 t s))) ! i)
           = (t' - t \<le> LONG_RELEASE_DELAY)
       \<and> lastClickTime (buttons (button_ISR rd2 t' (dispatches ds (button_ISR rd1 t s))) ! i) = t"
proof -
  let ?b = "buttons s ! i"
  let ?s1 = "button_ISR rd1 t s"
  let ?b1 = "buttons ?s1 ! i"
  let ?s2 = "dispatches ds ?s1"
  let ?b2 = "buttons ?s2 ! i"
  let ?tc = "last_mismatch True t (polled i ?s1 ds)"
  have i1: "i < length (buttons ?s1)" using assms(1) by (simp add: button_ISR_length)
  have up: "\<not> button_down ?b" using assms(1,3) by (simp add: down_def)
  have "buttons ?s1 ! i = button_ISR_step True t ?b"
    using assms(1,2) by (simp add: button_ISR_nth polledDown_def)
  then have b1: "?b1 = ?b\<lparr>state := PRESSED_FLAG OR
                  (if DOUBLE_CLICK_DELAY < t - lastClickTime ?b then CLICKED_FLAG
                   else DOUBLE_CLICKED_FLAG),
       lastClickTime := t, lastChangeTime := t\<rparr>"
    by (simp add: button_ISR_step_press [OF up assms(4)])
  have dn1: "button_down ?b1"
    by (simp add: b1 button_down_has_flag has_flag_bit bit_flag_ops)
  have lc1: "lastChangeTime ?b1 = t" by (simp add: b1)
  have bw: "bounces_within (button_down ?b1) (lastChangeTime ?b1) (polled i ?s1 ds)"
    using assms(5) dn1 lc1 by simp
  have b2: "?b2 = ?b1\<lparr>lastChangeTime := ?tc\<rparr>"
    using dispatches_nth [OF i1, of ds] button_ISR_steps_bounces [OF bw] dn1 lc1 by simp
  have len2: "length (buttons ?s2) = length (buttons ?s1)"
  proof -
    have "length (buttons (dispatches ds' s')) = length (buttons s')" for ds' s'
      by (induction ds' arbitrary: s') (auto simp add: button_ISR_length)
    then show ?thesis .
  qed
  have i2: "i < length (buttons ?s2)" using i1 len2 by simp
  have dn2: "button_down ?b2" using dn1 by (simp add: b2 button_down_def)
  have t2: "BUTTON_DEBOUNCE_DELAY < t' - lastChangeTime ?b2"
    using assms(7) by (simp add: b2)
  have "buttons (button_ISR rd2 t' ?s2) ! i = button_ISR_step False t' ?b2"
    using i2 assms(6) by (simp add: button_ISR_nth polledDown_def)
  then have b3: "buttons (button_ISR rd2 t' ?s2) ! i =
      ?b2\<lparr>state := (state ?b2 AND NOT PRESSED_FLAG) OR
                  (if LONG_RELEASE_DELAY < t' - lastClickTime ?b2 then LONG_RELEASED_FLAG
                   else SHORT_RELEASED_FLAG),
       lastChangeTime := t'\<rparr>"
    by (simp add: button_ISR_step_release [OF dn2 t2])
  have st2: "state ?b2 = state ?b1" and lk2: "lastClickTime ?b2 = t"
    by (simp_all add: b2 b1)
  show ?thesis
    using i2
    by (auto simp add: b3 st2 lk2 down_def button_ISR_length button_down_has_flag has_flag_bit
        bit_flag_ops b1 not_le)
qed


section \<open>Reading and clearing a flag\<close>

lemma read_and_clear_twice:
  assumes "i < length (buttons s)"
  shows "read_and_clear flag i s =
           Some (has_flag flag (buttons s ! i),
                 s\<lparr>buttons := (buttons s)[i := (buttons s ! i)\<lparr>state := state (buttons s ! i) AND NOT flag\<rparr>]\<rparr>)"
    and "read_and_clear flag i
           (s\<lparr>buttons := (buttons s)[i := (buttons s ! i)\<lparr>state := state (buttons s ! i) AND NOT flag\<rparr>]\<rparr>)
         = Some (False,
             s\<lparr>buttons := (buttons s)[i := (buttons s ! i)\<lparr>state := state (buttons s ! i) AND NOT flag\<rparr>]\<rparr>)"
  using assms by (simp_all add: read_and_clear_def Let_def has_flag_def and.assoc)

text \<open>
  Claim C5. For a valid index \<open>i\<close>, each of \<^verbatim>\<open>clicked\<close>, \<^verbatim>\<open>shortReleased\<close>,
  \<^verbatim>\<open>longReleased\<close> and \<^verbatim>\<open>doubleClicked\<close> returns whether its flag was set and leaves it
  clear; called again at once it returns false and changes nothing. The other three
  event flags, the pressed bit and the result of \<^verbatim>\<open>down\<close> are as before, and nothing in
  the registry changes except the state byte of button \<open>i\<close>.
\<close>

theorem take_accessor:
  assumes "i < length (buttons s)"
    and "(acc, flag) \<in> {(clicked, CLICKED_FLAG), (shortReleased, SHORT_RELEASED_FLAG),
                         (longReleased, LONG_RELEASED_FLAG), (doubleClicked, DOUBLE_CLICKED_FLAG)}"
  shows "case acc i s of
           None \<Rightarrow> False
         | Some (v, s') \<Rightarrow>
             v = has_flag flag (buttons s ! i)
             \<and> acc i s' = Some (False, s')
             \<and> \<not> has_flag flag (buttons s' ! i)
             \<and> (\<forall>g \<in> {PRESSED_FLAG, CLICKED_FLAG, SHORT_RELEASED_FLAG, LONG_RELEASED_FLAG,
                        DOUBLE_CLICKED_FLAG} - {flag}.
                   has_flag g (buttons s' ! i) = has_flag g (buttons s ! i))
             \<and> down i s' = down i s
             \<and> s' = s\<lparr>buttons := (buttons s)[i := (buttons s ! i)\<lparr>state := state (buttons s' ! i)\<rparr>]\<rparr>"
proof -
  have acc: "acc = read_and_clear flag"
    using assms(2) by (auto simp add: clicked_def shortReleased_def longReleased_def doubleClicked_def)
  let ?s' = "s\<lparr>buttons := (buttons s)[i := (buttons s ! i)\<lparr>state := state (buttons s ! i) AND NOT flag\<rparr>]\<rparr>"
  have nth: "buttons ?s' ! i = (buttons s ! i)\<lparr>state := state (buttons s ! i) AND NOT flag\<rparr>"
    using assms(1) by simp
  have flags: "\<not> has_flag flag (buttons ?s' ! i)
     \<and> (\<forall>g \<in> {PRESSED_FLAG, CLICKED_FLAG, SHORT_RELEASED_FLAG, LONG_RELEASED_FLAG,
                DOUBLE_CLICKED_FLAG} - {flag}.
           has_flag g (buttons ?s' ! i) = has_flag g (buttons s ! i))"
    unfolding nth using assms(2)
    by (auto simp add: has_flag_bit bit_flag_ops)
  have dn: "down i ?s' = down i s"
    using assms(1,2) by (auto simp add: down_def button_down_has_flag has_flag_bit bit_flag_ops)
  show ?thesis
    unfolding acc
    using assms(1) flags dn
    by (simp add: read_and_clear_twice [OF assms(1)])
qed

text \<open>The theorem for \<^verbatim>\<open>clicked(0)\<close> after the press of the example.\<close>

theorem take_accessor_witness:
  "0 < length (buttons pressed_at_1000)
   \<and> (case clicked 0 pressed_at_1000 of
         None \<Rightarrow> False
       | Some (v, s') \<Rightarrow>
           v \<and> clicked 0 s' = Some (False, s')
           \<and> \<not> has_flag CLICKED_FLAG (buttons s' ! 0)
           \<and> down 0 s' = Some True)"
proof -
  have h1: "0 < length (buttons pressed_at_1000)"
    by (simp add: pressed_at_1000_eq)
  have h2: "(clicked, CLICKED_FLAG) \<in>
              {(clicked, CLICKED_FLAG), (shortReleased, SHORT_RELEASED_FLAG),
               (longReleased, LONG_RELEASED_FLAG), (doubleClicked, DOUBLE_CLICKED_FLAG)}"
    by simp
  show ?thesis
    using h1 take_accessor [OF h1 h2]
    by (simp add: pressed_at_1000_eq eval_defs)
qed

section \<open>Starting the registry\<close>

text \<open>
  Claim C6. Whenever \<^verbatim>\<open>begin\<close> is given an array with an element for every button,
  begun before or not, it returns true and leaves every button \<open>i\<close> with the level
  just sampled on its pin as confirmed state, no event flag, and the clock reading
  taken for it in both \<^verbatim>\<open>lastChangeTime\<close> and \<^verbatim>\<open>lastClickTime\<close>. A round of the
  interrupt routine that finds the pins at the levels \<^verbatim>\<open>begin\<close> sampled then leaves
  the whole registry as it is.
\<close>

theorem begin_seeds_state:
  assumes "length (buttons s) \<le> length pins"
    and "i < length (buttons s)"
  shows "case Buttons_begin (Some pins) rd millis s of
           None \<Rightarrow> False
         | Some (ok, s') \<Rightarrow>
             ok \<and> begun s'
             \<and> down i s' = Some (\<not> rd i (pins ! i))
             \<and> lastChangeTime (buttons s' ! i) = millis i
             \<and> lastClickTime (buttons s' ! i) = millis i
             \<and> \<not> has_flag CLICKED_FLAG (buttons s' ! i)
             \<and> \<not> has_flag SHORT_RELEASED_FLAG (buttons s' ! i)
             \<and> \<not> has_flag LONG_RELEASED_FLAG (buttons s' ! i)
             \<and> \<not> has_flag DOUBLE_CLICKED_FLAG (buttons s' ! i)
             \<and> ((\<forall>j < length (buttons s). rd' j (pins ! j) = rd j (pins ! j))
                  \<longrightarrow> button_ISR rd' now s' = s')"
proof -
  from Buttons_begin_Some [OF assms(1), of rd millis]
  obtain s' where r: "Buttons_begin (Some pins) rd millis s = Some (True, s')"
    and bg: "begun s'"
    and bs: "buttons s' = map (seeded pins rd millis) [0..<length (buttons s)]"
    by blast
  have len: "length (buttons s') = length (buttons s)" by (simp add: bs)
  have nth: "buttons s' ! j = seeded pins rd millis j" if "j < length (buttons s)" for j
    using that by (simp add: bs)
  have dn: "button_down (seeded pins rd millis j) = (\<not> rd j (pins ! j))" for j
    by (simp add: seeded_def button_down_has_flag has_flag_bit bit_flag_ops)
  have quiet: "button_ISR rd' now s' = s'"
    if same: "\<forall>j < length (buttons s). rd' j (pins ! j) = rd j (pins ! j)"
  proof -
    have "map (\<lambda>j. button_ISR_step (\<not> rd' j (pin (buttons s' ! j))) now (buttons s' ! j))
            [0..<length (buttons s')] = buttons s'"
    proof (rule nth_equalityI)
      show "length (map (\<lambda>j. button_ISR_step (\<not> rd' j (pin (buttons s' ! j))) now (buttons s' ! j))
            [0..<length (buttons s')]) = length (buttons s')" by simp
    next
      fix j
      assume "j < length (map (\<lambda>j. button_ISR_step (\<not> rd' j (pin (buttons s' ! j))) now
                (buttons s' ! j)) [0..<length (buttons s')])"
      then have j: "j < length (buttons s)" by (simp add: len)
      have "pin (buttons s' ! j) = pins ! j" by (simp add: nth [OF j] seeded_def)
      then have "(\<not> rd' j (pin (buttons s' ! j))) = button_down (buttons s' ! j)"
        using same j by (simp add: nth [OF j] dn)
      then show "map (\<lambda>j. button_ISR_step (\<not> rd' j (pin (buttons s' ! j))) now (buttons s' ! j))
            [0..<length (buttons s')] ! j = buttons s' ! j"
        using j by (simp add: len button_ISR_step_same)
    qed
    then show ?thesis by (simp add: button_ISR_eq)
  qed
  show ?thesis
    using assms(2) quiet
    by (simp add: r bg down_def len nth dn)
       (simp add: seeded_def has_flag_bit bit_flag_ops)
qed

text \<open>
  The theorem on a restart: the registry of the example, with the button held down
  since 1000 and its click unread, is begun again at 5000.
\<close>

theorem begin_seeds_state_witness:
  "length (buttons pressed_at_1000) \<le> length [2 :: u8]
   \<and> 0 < length (buttons pressed_at_1000)
   \<and> begun pressed_at_1000
   \<and> (case Buttons_begin (Some [2]) all_pins_low restart_millis pressed_at_1000 of
         None \<Rightarrow> False
       | Some (ok, s') \<Rightarrow>
           ok \<and> begun s' \<and> down 0 s' = Some True
           \<and> lastChangeTime (buttons s' ! 0) = 5000
           \<and> lastClickTime (buttons s' ! 0) = 5000
           \<and> \<not> has_flag CLICKED_FLAG (buttons s' ! 0)
           \<and> button_ISR all_pins_low 5001 s' = s')"
proof -
  have h1: "length (buttons pressed_at_1000) \<le> length [2 :: u8]"
    by (simp add: pressed_at_1000_eq)
  have h2: "0 < length (buttons pressed_at_1000)"
    by (simp add: pressed_at_1000_eq)
  have h3: "begun pressed_at_1000"
    by (simp add: pressed_at_1000_eq)
  show ?thesis
    using h1 h2 h3
      begin_seeds_state [OF h1 h2, of all_pins_low restart_millis all_pins_low 5001]
    by (auto simp add: all_pins_low_def restart_millis_def split: option.splits)
qed

text \<open>
  Claim C7, as the code has it. \<^verbatim>\<open>begin\<close> returns false for a null pointer, and
  then changes nothing. For every array with at least \<^verbatim>\<open>NumberOfButtons\<close> elements it
  returns true: it sets the mode of the first \<^verbatim>\<open>NumberOfButtons\<close> pins, waits, and
  attaches the interrupt of each of them, after detaching the old ones if it was
  begun. Nothing the platform does with these calls reaches the result, and no
  attached interrupt is detached again.
\<close>

theorem begin_fails_only_on_null:
  "Buttons_begin None rd millis s = Some (False, s)
   \<and> (length (buttons s) \<le> length pins \<longrightarrow>
        (case Buttons_begin (Some pins) rd millis s of
           None \<Rightarrow> False
         | Some (ok, s') \<Rightarrow>
             ok \<and> calls s' =
               calls s
               @ (if begun s
                  then map (\<lambda>j. DetachInterrupt (pin (buttons s ! j))) [0..<length (buttons s)]
                  else [])
               @ map (\<lambda>j. PinModePullup (pins ! j)) [0..<length (buttons s)]
               @ [Delay 10]
               @ map (\<lambda>j. AttachInterrupt (pins ! j)) [0..<length (buttons s)]))"
proof (intro conjI impI)
  show "Buttons_begin None rd millis s = Some (False, s)"
    by (simp add: Buttons_begin_def)
next
  assume "length (buttons s) \<le> length pins"
  from Buttons_begin_Some [OF this, of rd millis]
  obtain s' where r: "Buttons_begin (Some pins) rd millis s = Some (True, s')"
    and cs: "calls s' = calls (if begun s then stop s else s)
                 @ map (\<lambda>j. PinModePullup (pins ! j)) [0..<length (buttons s)]
                 @ [Delay 10]
                 @ map (\<lambda>j. AttachInterrupt (pins ! j)) [0..<length (buttons s)]"
    by blast
  show "case Buttons_begin (Some pins) rd millis s of
           None \<Rightarrow> False
         | Some (ok, s') \<Rightarrow>
             ok \<and> calls s' =
               calls s
               @ (if begun s
                  then map (\<lambda>j. DetachInterrupt (pin (buttons s ! j))) [0..<length (buttons s)]
                  else [])
               @ map (\<lambda>j. PinModePullup (pins ! j)) [0..<length (buttons s)]
               @ [Delay 10]
               @ map (\<lambda>j. AttachInterrupt (pins ! j)) [0..<length (buttons s)]"
    by (simp add: r cs stop_calls)
qed

text \<open>The theorem at the first start of the example.\<close>

theorem begin_fails_only_on_null_witness:
  "length (buttons (Buttons_static_init 1)) \<le> length [2 :: u8]
   \<and> Buttons_begin None all_pins_high boot_millis (Buttons_static_init 1)
       = Some (False, Buttons_static_init 1)
   \<and> map_option fst
        (Buttons_begin (Some [2]) all_pins_high boot_millis (Buttons_static_init 1)) = Some True
   \<and> map_option (calls \<circ> snd)
        (Buttons_begin (Some [2]) all_pins_high boot_millis (Buttons_static_init 1))
       = Some [PinModePullup 2, Delay 10, AttachInterrupt 2]"
proof -
  have h: "length (buttons (Buttons_static_init 1)) \<le> length [2 :: u8]"
    by (simp add: Buttons_static_init_def)
  show ?thesis
    using h begin_fails_only_on_null [of all_pins_high boot_millis "Buttons_static_init 1" "[2]"]
    by (auto simp add: Buttons_static_init_def split: option.splits)
qed

text \<open>
  The claim as written has \<^verbatim>\<open>begin\<close> fail when the number of identities is not the
  capacity of the registry. A registry of two buttons given an array of three pins
  returns true.
\<close>

theorem begin_accepts_wrong_count:
  "length [2 :: u8, 3, 4] \<noteq> numberOfButtons (Buttons_static_init 2)
   \<and> map_option fst
        (Buttons_begin (Some [2, 3, 4]) all_pins_high boot_millis (Buttons_static_init 2))
       = Some True"
  by (simp add: begin_defs eval_defs numberOfButtons_def)

section \<open>The clock wrapping around\<close>

text \<open>
  Claim C8 fails on the older template. Its routine compares
  \<^verbatim>\<open>millis() > lastChangeTime + DEBOUNCE_DELAY\<close>, and the sum wraps. With the last
  change at \<open>2^32 - 10\<close> and a bounce 5 ms later, the sum is 40, the comparison holds
  and the bounce is accepted as a press. The loop body of the current template, which
  compares \<^verbatim>\<open>now - lastChangeTime\<close>, rejects the same bounce.
\<close>

theorem old_debounce_wraps:
  "button_ISR_old_step True 0xFFFFFFFB 0xFFFFFFFB
     \<lparr>buttonPin = 2, currentState = False, changeFlag = False, longClickFlag = False,
      lastChangeTimeOld = 0xFFFFFFF6\<rparr>
   = \<lparr>buttonPin = 2, currentState = True, changeFlag = True, longClickFlag = True,
      lastChangeTimeOld = 0xFFFFFFFB\<rparr>
   \<and> (0xFFFFFFFB :: u32) - 0xFFFFFFF6 = 5
   \<and> button_ISR_step True 0xFFFFFFFB
        \<lparr>pin = 2, state = CLEAR_FLAGS, lastChangeTime = 0xFFFFFFF6, lastClickTime = 0\<rparr>
      = \<lparr>pin = 2, state = CLEAR_FLAGS, lastChangeTime = 0xFFFFFFFB, lastClickTime = 0\<rparr>"
  by (simp add: button_ISR_old_step_def DEBOUNCE_DELAY_def eval_defs)

section \<open>Stopping the registry\<close>

text \<open>
  Claim C9. \<^verbatim>\<open>stop\<close> leaves the array of buttons as it is, so every pin, state byte
  and timestamp; it clears \<^verbatim>\<open>_begun\<close> and, if the registry was begun, detaches the
  interrupt of every button's pin. On a registry that is not begun it does nothing,
  and a second \<^verbatim>\<open>stop\<close> does nothing. Every accessor returns after \<^verbatim>\<open>stop\<close> what it
  would have returned before.
\<close>

theorem stop_frame:
  "buttons (stop s) = buttons s
   \<and> \<not> begun (stop s)
   \<and> calls (stop s) =
       calls s @ (if begun s
                  then map (\<lambda>j. DetachInterrupt (pin (buttons s ! j))) [0..<length (buttons s)]
                  else [])
   \<and> (\<not> begun s \<longrightarrow> stop s = s)
   \<and> stop (stop s) = stop s
   \<and> map_option fst (clicked i (stop s)) = map_option fst (clicked i s)
   \<and> map_option fst (shortReleased i (stop s)) = map_option fst (shortReleased i s)
   \<and> map_option fst (longReleased i (stop s)) = map_option fst (longReleased i s)
   \<and> map_option fst (doubleClicked i (stop s)) = map_option fst (doubleClicked i s)
   \<and> down i (stop s) = down i s"
proof -
  have "stop (stop s) = stop s"
    using stop_begun [of s] by (simp add: stop_def [of "stop s"])
  moreover have "map_option fst (read_and_clear f i (stop s)) = map_option fst (read_and_clear f i s)" for f
    by (simp add: read_and_clear_def stop_buttons Let_def)
  ultimately show ?thesis
    by (simp add: stop_buttons stop_begun stop_calls clicked_def shortReleased_def
        longReleased_def doubleClicked_def down_def)
qed

text \<open>
  The theorem on the registry before any start, and on the example with its click
  unread.
\<close>

theorem stop_frame_witness:
  "\<not> begun (Buttons_static_init 1)
   \<and> stop (Buttons_static_init 1) = Buttons_static_init 1
   \<and> begun pressed_at_1000
   \<and> buttons (stop pressed_at_1000) = buttons pressed_at_1000
   \<and> calls (stop pressed_at_1000)
       = [PinModePullup 2, Delay 10, AttachInterrupt 2, DetachInterrupt 2]
   \<and> map_option fst (clicked 0 (stop pressed_at_1000)) = Some True"
proof -
  have h: "\<not> begun (Buttons_static_init 1)"
    by (simp add: Buttons_static_init_def)
  have c: "map_option fst (clicked 0 pressed_at_1000) = Some True"
    by (simp add: pressed_at_1000_eq eval_defs)
  show ?thesis
    using h c stop_frame [of "Buttons_static_init 1" 0] stop_frame [of pressed_at_1000 0]
    by (simp add: pressed_at_1000_eq)
qed

section \<open>The accessors of the single-button variant\<close>

lemma logical_and_flag:
  "logical_and x PRESSED_FLAG = (x \<noteq> 0)"
  "logical_and x CLICKED_FLAG = (x \<noteq> 0)"
  "logical_and x RELEASED_FLAG = (x \<noteq> 0)"
  "logical_and x LONG_CLICKED_FLAG = (x \<noteq> 0)"
  "logical_and x DOUBLE_CLICKED_FLAG = (x \<noteq> 0)"
  by (simp_all add: logical_and_def flag_defs RELEASED_FLAG_def LONG_CLICKED_FLAG_def BV_def)

lemma bit_single_flag_ops:
  "bit (x AND NOT RELEASED_FLAG) m = (bit x m \<and> m \<noteq> 2)"
  "bit (x AND NOT LONG_CLICKED_FLAG) m = (bit x m \<and> m \<noteq> 3)"
  by (simp_all add: RELEASED_FLAG_def LONG_CLICKED_FLAG_def bit_clear_BV)

text \<open>
  Claim C10. In \<^verbatim>\<open>ButtonSingle\<close> each of \<^verbatim>\<open>clicked\<close>, \<^verbatim>\<open>released\<close>, \<^verbatim>\<open>longClicked\<close>,
  \<^verbatim>\<open>doubleClicked\<close> and \<^verbatim>\<open>down\<close> returns true exactly when the state byte is nonzero.
  The four clearing accessors still clear their own bit and no other, and touch no
  other member. The handler compares the sample with "the state byte is nonzero": if
  they agree it changes nothing, if they differ it stores \<^verbatim>\<open>now\<close> in
  \<^verbatim>\<open>lastChangeTime\<close>.
\<close>

theorem single_variant_tests_whole_byte:
  "fst (ButtonSingle_clicked b) = (state b \<noteq> 0)
   \<and> fst (ButtonSingle_released b) = (state b \<noteq> 0)
   \<and> fst (ButtonSingle_longClicked b) = (state b \<noteq> 0)
   \<and> fst (ButtonSingle_doubleClicked b) = (state b \<noteq> 0)
   \<and> ButtonSingle_down b = (state b \<noteq> 0)
   \<and> snd (ButtonSingle_clicked b) = b\<lparr>state := state b AND NOT CLICKED_FLAG\<rparr>
   \<and> snd (ButtonSingle_released b) = b\<lparr>state := state b AND NOT RELEASED_FLAG\<rparr>
   \<and> snd (ButtonSingle_longClicked b) = b\<lparr>state := state b AND NOT LONG_CLICKED_FLAG\<rparr>
   \<and> snd (ButtonSingle_doubleClicked b) = b\<lparr>state := state b AND NOT DOUBLE_CLICKED_FLAG\<rparr>
   \<and> bit (state (snd (ButtonSingle_clicked b))) m = (bit (state b) m \<and> m \<noteq> 1)
   \<and> bit (state (snd (ButtonSingle_released b))) m = (bit (state b) m \<and> m \<noteq> 2)
   \<and> bit (state (snd (ButtonSingle_longClicked b))) m = (bit (state b) m \<and> m \<noteq> 3)
   \<and> bit (state (snd (ButtonSingle_doubleClicked b))) m = (bit (state b) m \<and> m \<noteq> 4)
   \<and> ((\<not> pinHigh) = (state b \<noteq> 0) \<longrightarrow> button_Handler pinHigh now b = b)
   \<and> ((\<not> pinHigh) \<noteq> (state b \<noteq> 0) \<longrightarrow> lastChangeTime (button_Handler pinHigh now b) = now)"
  by (auto simp add: ButtonSingle_clicked_def ButtonSingle_released_def ButtonSingle_longClicked_def
      ButtonSingle_doubleClicked_def ButtonSingle_down_def ButtonSingle_read_and_clear_def
      logical_and_flag button_Handler_def Let_def bit_flag_ops bit_single_flag_ops)

text \<open>
  The theorem on a released button with an unread release (state byte 4): \<^verbatim>\<open>down\<close>
  and \<^verbatim>\<open>clicked\<close> return true, a sample "pressed" is taken for no change, and a sample
  "released" for a pending transition.
\<close>

theorem single_variant_tests_whole_byte_witness:
  "ButtonSingle_down \<lparr>pin = 2, state = 4, lastChangeTime = 100, lastClickTime = 50\<rparr>
   \<and> fst (ButtonSingle_clicked \<lparr>pin = 2, state = 4, lastChangeTime = 100, lastClickTime = 50\<rparr>)
   \<and> button_Handler False 1000 \<lparr>pin = 2, state = 4, lastChangeTime = 100, lastClickTime = 50\<rparr>
       = \<lparr>pin = 2, state = 4, lastChangeTime = 100, lastClickTime = 50\<rparr>
   \<and> lastChangeTime
        (button_Handler True 1000 \<lparr>pin = 2, state = 4, lastChangeTime = 100, lastClickTime = 50\<rparr>)
       = 1000"
  using single_variant_tests_whole_byte
    [of "\<lparr>pin = 2, state = 4, lastChangeTime = 100, lastClickTime = 50\<rparr>" 0 False 1000]
    single_variant_tests_whole_byte
    [of "\<lparr>pin = 2, state = 4, lastChangeTime = 100, lastClickTime = 50\<rparr>" 0 True 1000]
  by simp

end
